theory Spec2Isabelle
  imports Main
begin

section \<open>String helpers of the Go standard library used by datadriven.go\<close>

text \<open>Go strings are byte sequences; they are modelled as \<open>string\<close> (a list of
  \<open>char\<close>, one per byte). The line terminator is the byte 0x0A.\<close>

definition NL :: char where
  "NL = CHR 0x0A"

text \<open>\<open>strings.HasSuffix(s, suffix)\<close>.\<close>

definition HasSuffix :: "string \<Rightarrow> string \<Rightarrow> bool" where
  "HasSuffix s suffix =
     (length suffix \<le> length s \<and> drop (length s - length suffix) s = suffix)"

text \<open>\<open>strings.HasPrefix(s, prefix)\<close>.\<close>

definition HasPrefix :: "string \<Rightarrow> string \<Rightarrow> bool" where
  "HasPrefix s pre = (length pre \<le> length s \<and> take (length pre) s = pre)"

text \<open>\<open>strings.Join(elems, sep)\<close>.\<close>

fun Join :: "string list \<Rightarrow> string \<Rightarrow> string" where
  "Join [] sep = []"
| "Join [x] sep = x"
| "Join (x # y # ys) sep = x @ sep @ Join (y # ys) sep"

section \<open>CmdArg\<close>

record CmdArg =
  Key :: string
  Vals :: "string list"

text \<open>\<open>func (arg CmdArg) String() string\<close>: a switch on \<open>len(arg.Vals)\<close>.\<close>

definition String :: "CmdArg \<Rightarrow> string" where
  "String arg =
     (case Vals arg of
        [] \<Rightarrow> Key arg
      | [v] \<Rightarrow> Key arg @ ''='' @ v
      | _ \<Rightarrow> Key arg @ ''=('' @ Join (Vals arg) '', '' @ '')'')"

section \<open>Output normalization in runDirective\<close>

text \<open>The closure of \<open>runDirective\<close> that calls the handler: the handler's result
  \<open>actual\<close> gets a line terminator appended when it is non-empty and has none.\<close>

definition normalize_actual :: "string \<Rightarrow> string" where
  "normalize_actual actual =
     (if actual \<noteq> [] \<and> \<not> HasSuffix actual [NL] then actual @ [NL] else actual)"

section \<open>TestData and fatal reports\<close>

record TestData =
  Pos :: string
  Cmd :: string
  CmdArgs :: "CmdArg list"
  Input :: string
  Expected :: string

text \<open>The errors of \<open>strconv\<close>: \<open>ErrSyntax\<close> and \<open>ErrRange\<close>.\<close>

datatype NumError = ErrSyntax | ErrRange

text \<open>Every fatal report of datadriven.go, one constructor per format string, holding
  the format's arguments in the order the source passes them.\<close>

datatype message =
    InvalidSyntaxSubtest
      \<comment> \<open>"invalid syntax for subtest"\<close>
  | EndWithoutStart
      \<comment> \<open>"subtest end without corresponding start"\<close>
  | MustBeginWith string
      \<comment> \<open>"name of nested subtest must begin with %q"\<close>
  | InvalidSyntaxEnd
      \<comment> \<open>"invalid syntax for subtest end"\<close>
  | SkipInsideSubtest string
      \<comment> \<open>"cannot use t.Skip inside subtest\n%s: subtest started here"\<close>
  | MismatchedEnd string string
      \<comment> \<open>"mismatched subtest end directive: expected %q, got %q"\<close>
  | EOFWithoutEnd string
      \<comment> \<open>"EOF encountered without subtest end directive\n%s: subtest started here"\<close>
  | OutputMismatch string string string string
      \<comment> \<open>"\n%s: %s\nexpected:\n%s\nfound:\n%s"\<close>
  | MissingArgument string
      \<comment> \<open>"missing argument: %s"\<close>
  | ArityMismatch string nat nat
      \<comment> \<open>"%s: got %d destinations, but %d values"\<close>
  | CannotScanIndex int string
      \<comment> \<open>"cannot scan index %d of key %s"\<close>
  | ParseFailed string string NumError
      \<comment> \<open>the \<open>*strconv.NumError\<close> given to \<open>t.Fatal\<close>: function, input, error\<close>
  | UnsupportedType int
      \<comment> \<open>"unsupported type %T for destination #%d (might be easy to add it)"\<close>

section \<open>Conversions of strconv, as CmdArg.Scan calls them\<close>

text \<open>\<open>strconv.ParseUint(s, 10, 64)\<close>: the digit loop with its two overflow checks;
  like the Go function it returns the largest value together with \<open>ErrRange\<close>.\<close>

definition maxUint64 :: nat where
  "maxUint64 = 2 ^ 64 - 1"

fun ParseUint_loop :: "nat \<Rightarrow> string \<Rightarrow> nat \<times> NumError option" where
  "ParseUint_loop n [] = (n, None)"
| "ParseUint_loop n (c # cs) =
     (if 48 \<le> (of_char c :: nat) \<and> (of_char c :: nat) \<le> 57 then
        (if n \<ge> maxUint64 div 10 + 1 then (maxUint64, Some ErrRange)
         else if n * 10 + (of_char c - 48) > maxUint64 then (maxUint64, Some ErrRange)
         else ParseUint_loop (n * 10 + (of_char c - 48)) cs)
      else (0, Some ErrSyntax))"

definition ParseUint :: "string \<Rightarrow> nat \<times> NumError option" where
  "ParseUint s = (if s = [] then (0, Some ErrSyntax) else ParseUint_loop 0 s)"

text \<open>\<open>strconv.ParseInt(s, 10, 64)\<close>: an optional sign, then \<open>ParseUint\<close>, then the
  range check against \<open>1 << 63\<close>.\<close>

definition ParseInt :: "string \<Rightarrow> int \<times> NumError option" where
  "ParseInt s =
     (if s = [] then (0, Some ErrSyntax)
      else
        let neg = (hd s = CHR ''-'');
            s1 = (if hd s = CHR ''+'' \<or> hd s = CHR ''-'' then tl s else s);
            (un, err) = ParseUint s1
        in if err = Some ErrSyntax then (0, err)
           else if \<not> neg \<and> un \<ge> 2 ^ 63 then (2 ^ 63 - 1, Some ErrRange)
           else if neg \<and> un > 2 ^ 63 then (- (2 ^ 63), Some ErrRange)
           else (if neg then - int un else int un, None))"

text \<open>\<open>strconv.ParseBool\<close>.\<close>

definition ParseBool :: "string \<Rightarrow> bool \<times> NumError option" where
  "ParseBool str =
     (if str \<in> set [''1'', ''t'', ''T'', ''TRUE'', ''true'', ''True''] then (True, None)
      else if str \<in> set [''0'', ''f'', ''F'', ''FALSE'', ''false'', ''False''] then (False, None)
      else (False, Some ErrSyntax))"

section \<open>Destinations of Scan\<close>

text \<open>A destination is a pointer; its dynamic type selects the conversion. The
  variables pointed to live in a store, one address space per Go type, so two
  destinations of one call may be the same pointer. After its lookup loop, the only
  memory \<open>ScanArgs\<close> reads is the backing array of \<open>arg.Vals\<close>, which \<open>arg\<close> shares
  with the record. So a \<open>*string\<close> that points into the record's values is a
  destination of its own: \<open>ValsPtr a j\<close> is \<open>&td.CmdArgs[a].Vals[j]\<close>. A pointer to
  anything else is a variable of the store. (The \<open>Vals\<close> slices of different arguments
  of a record are taken not to share a backing array.)\<close>

datatype dest =
    StringPtr nat
  | ValsPtr nat nat
  | IntPtr nat
  | Uint64Ptr nat
  | BoolPtr nat
  | OtherPtr nat

record store =
  strings :: "nat \<Rightarrow> string"
  ints :: "nat \<Rightarrow> int"
  uint64s :: "nat \<Rightarrow> nat"
  bools :: "nat \<Rightarrow> bool"

text \<open>The assignment \<open>td.CmdArgs[a].Vals[j] = val\<close> through a pointer.\<close>

definition setVal :: "CmdArg list \<Rightarrow> nat \<Rightarrow> nat \<Rightarrow> string \<Rightarrow> CmdArg list" where
  "setVal args a j val =
     (if a < length args then args[a := (args ! a)\<lparr>Vals := (Vals (args ! a))[j := val]\<rparr>]
      else args)"

text \<open>\<open>func (arg CmdArg) Scan(t, i, dest)\<close>. The receiver \<open>arg\<close> is a copy of the
  struct: its key and the length of its slice are fixed, while the elements of
  \<open>arg.Vals\<close> are those of argument number \<open>a\<close> of the record, read as they are now.
  The memory is the pair of the record's arguments and the store. \<open>Inl\<close> is the report
  of the \<open>t.Fatalf\<close> or \<open>t.Fatal\<close> that ends the goroutine.\<close>

definition Scan ::
  "CmdArg \<Rightarrow> nat \<Rightarrow> int \<Rightarrow> dest \<Rightarrow> CmdArg list \<times> store \<Rightarrow> message + CmdArg list \<times> store" where
  "Scan arg a i dst mem =
     (case mem of (args, \<sigma>) \<Rightarrow>
      if i < 0 \<or> i \<ge> int (length (Vals arg)) then Inl (CannotScanIndex i (Key arg))
      else
        let val = Vals (args ! a) ! nat i in
        case dst of
          StringPtr p \<Rightarrow> Inr (args, \<sigma>\<lparr>strings := (strings \<sigma>)(p := val)\<rparr>)
        | ValsPtr b j \<Rightarrow> Inr (setVal args b j val, \<sigma>)
        | IntPtr p \<Rightarrow>
            (case ParseInt val of
               (n, Some e) \<Rightarrow> Inl (ParseFailed ''ParseInt'' val e)
             | (n, None) \<Rightarrow> Inr (args, \<sigma>\<lparr>ints := (ints \<sigma>)(p := n)\<rparr>))
        | Uint64Ptr p \<Rightarrow>
            (case ParseUint val of
               (n, Some e) \<Rightarrow> Inl (ParseFailed ''ParseUint'' val e)
             | (n, None) \<Rightarrow> Inr (args, \<sigma>\<lparr>uint64s := (uint64s \<sigma>)(p := n)\<rparr>))
        | BoolPtr p \<Rightarrow>
            (case ParseBool val of
               (b, Some e) \<Rightarrow> Inl (ParseFailed ''ParseBool'' val e)
             | (b, None) \<Rightarrow> Inr (args, \<sigma>\<lparr>bools := (bools \<sigma>)(p := b)\<rparr>))
        | OtherPtr p \<Rightarrow> Inl (UnsupportedType (i + 1)))"

section \<open>TestData.HasArg and TestData.ScanArgs\<close>

definition HasArg :: "TestData \<Rightarrow> string \<Rightarrow> bool" where
  "HasArg td key = list_ex (\<lambda>a. Key a = key) (CmdArgs td)"

text \<open>The lookup loop of \<open>ScanArgs\<close>: \<open>arg\<close> starts as the zero \<open>CmdArg\<close> and
  becomes the first argument whose key is \<open>key\<close>.\<close>

fun lookupArg :: "CmdArg list \<Rightarrow> string \<Rightarrow> CmdArg" where
  "lookupArg [] key = \<lparr>Key = [], Vals = []\<rparr>"
| "lookupArg (a # as) key = (if Key a = key then a else lookupArg as key)"

text \<open>The index at which that loop breaks (the number of arguments when it does not).\<close>

fun lookupIndex :: "CmdArg list \<Rightarrow> string \<Rightarrow> nat" where
  "lookupIndex [] key = 0"
| "lookupIndex (a # as) key = (if Key a = key then 0 else Suc (lookupIndex as key))"

text \<open>The loop \<open>for i := range dests { arg.Scan(t, i, dests[i]) }\<close>. Each iteration
  reads its value from the memory the earlier iterations left. A fatal report comes
  with the memory as it is when the goroutine ends.\<close>

fun scanLoop ::
  "CmdArg \<Rightarrow> nat \<Rightarrow> int \<Rightarrow> dest list \<Rightarrow> CmdArg list \<times> store \<Rightarrow>
     message \<times> CmdArg list \<times> store + CmdArg list \<times> store" where
  "scanLoop arg a i [] mem = Inr mem"
| "scanLoop arg a i (d # ds) mem =
     (case Scan arg a i d mem of
        Inl m \<Rightarrow> Inl (m, mem)
      | Inr mem' \<Rightarrow> scanLoop arg a (i + 1) ds mem')"

text \<open>\<open>func (td *TestData) ScanArgs(t, key, dests...)\<close>. The result holds the record's
  arguments and the store as the call leaves them.\<close>

definition ScanArgs ::
  "TestData \<Rightarrow> string \<Rightarrow> dest list \<Rightarrow> store \<Rightarrow>
     message \<times> CmdArg list \<times> store + CmdArg list \<times> store" where
  "ScanArgs td key dests \<sigma> =
     (let arg = lookupArg (CmdArgs td) key in
      if Key arg = [] then Inl (MissingArgument key, CmdArgs td, \<sigma>)
      else if length dests \<noteq> length (Vals arg)
        then Inl (ArityMismatch (Key arg) (length dests) (length (Vals arg)), CmdArgs td, \<sigma>)
      else scanLoop arg (lookupIndex (CmdArgs td) key) 0 dests (CmdArgs td, \<sigma>))"

text \<open>Concrete inputs for the examples: a store of zero values and a record with the
  given arguments.\<close>

definition store0 :: store where
  "store0 = \<lparr>strings = (\<lambda>_. []), ints = (\<lambda>_. 0), uint64s = (\<lambda>_. 0), bools = (\<lambda>_. False)\<rparr>"

definition td_ex :: "CmdArg list \<Rightarrow> TestData" where
  "td_ex args = \<lparr>Pos = ''f:1'', Cmd = ''cmd'', CmdArgs = args, Input = [], Expected = []\<rparr>"

section \<open>bufio.Scanner, strings.TrimSpace and hasBlankLine\<close>

text \<open>\<open>hasBlankLine\<close> reads its argument with a \<open>bufio.Scanner\<close> in its default
  configuration: the split function is \<open>bufio.ScanLines\<close> and a token is limited by
  \<open>bufio.MaxScanTokenSize\<close>. A line is a run of bytes up to a line terminator, handed
  out without the terminator and without one carriage return before it; a last line with
  no terminator is handed out when it is not empty. The scanner's buffer grows to
  \<open>MaxScanTokenSize\<close> bytes and no further: when that many bytes of a line have been read
  and no terminator is among them, \<open>Scan\<close> returns false (\<open>ErrTooLong\<close>) and nothing more
  is read. \<open>hasBlankLine\<close> does not look at \<open>scanner.Err()\<close>.\<close>

definition MaxScanTokenSize :: nat where
  "MaxScanTokenSize = 64 * 1024"

definition CR :: char where
  "CR = CHR 0x0D"

definition dropCR :: "string \<Rightarrow> string" where
  "dropCR line = (if line \<noteq> [] \<and> last line = CR then butlast line else line)"

text \<open>The tokens that successive calls of \<open>Scan\<close> hand out until \<open>Scan\<close> returns
  false; \<open>line\<close> holds the bytes of the current line read so far.\<close>

fun scanLines :: "string \<Rightarrow> string \<Rightarrow> string list" where
  "scanLines line [] =
     (if line = [] \<or> length line \<ge> MaxScanTokenSize then [] else [dropCR line])"
| "scanLines line (c # cs) =
     (if c = NL
      then (if length line \<ge> MaxScanTokenSize then [] else dropCR line # scanLines [] cs)
      else scanLines (line @ [c]) cs)"

text \<open>\<open>strings.TrimSpace\<close> removes the leading and the trailing white space, as
  \<open>unicode.IsSpace\<close> defines it, rune by rune. These are the UTF-8 encodings of the
  runes that are white space: the six ASCII ones, U+0085, U+00A0, U+1680, U+2000 to
  U+200A, U+2028, U+2029, U+202F, U+205F and U+3000.\<close>

definition spaceRunes :: "string list" where
  "spaceRunes =
     [[CHR 0x09], [CHR 0x0A], [CHR 0x0B], [CHR 0x0C], [CHR 0x0D], [CHR 0x20],
      [CHR 0xC2, CHR 0x85], [CHR 0xC2, CHR 0xA0],
      [CHR 0xE1, CHR 0x9A, CHR 0x80],
      [CHR 0xE2, CHR 0x80, CHR 0x80], [CHR 0xE2, CHR 0x80, CHR 0x81],
      [CHR 0xE2, CHR 0x80, CHR 0x82], [CHR 0xE2, CHR 0x80, CHR 0x83],
      [CHR 0xE2, CHR 0x80, CHR 0x84], [CHR 0xE2, CHR 0x80, CHR 0x85],
      [CHR 0xE2, CHR 0x80, CHR 0x86], [CHR 0xE2, CHR 0x80, CHR 0x87],
      [CHR 0xE2, CHR 0x80, CHR 0x88], [CHR 0xE2, CHR 0x80, CHR 0x89],
      [CHR 0xE2, CHR 0x80, CHR 0x8A],
      [CHR 0xE2, CHR 0x80, CHR 0xA8], [CHR 0xE2, CHR 0x80, CHR 0xA9],
      [CHR 0xE2, CHR 0x80, CHR 0xAF], [CHR 0xE2, CHR 0x81, CHR 0x9F],
      [CHR 0xE3, CHR 0x80, CHR 0x80]]"

text \<open>The width in bytes of the white-space rune a string begins with, or ends with;
  0 when there is none.\<close>

definition leadingSpace :: "string \<Rightarrow> nat" where
  "leadingSpace s = (case find (HasPrefix s) spaceRunes of None \<Rightarrow> 0 | Some w \<Rightarrow> length w)"

definition trailingSpace :: "string \<Rightarrow> nat" where
  "trailingSpace s = (case find (HasSuffix s) spaceRunes of None \<Rightarrow> 0 | Some w \<Rightarrow> length w)"

lemma leadingSpace_le: "leadingSpace s \<le> length s"
  by (auto simp: leadingSpace_def HasPrefix_def find_Some_iff split: option.splits)

lemma trailingSpace_le: "trailingSpace s \<le> length s"
  by (auto simp: trailingSpace_def HasSuffix_def find_Some_iff split: option.splits)

function TrimLeftSpace :: "string \<Rightarrow> string" where
  "TrimLeftSpace s =
     (if leadingSpace s = 0 then s else TrimLeftSpace (drop (leadingSpace s) s))"
  by pat_completeness auto
termination
proof (relation "measure length")
  show "wf (measure length)" by simp
next
  fix s :: string
  assume "leadingSpace s \<noteq> 0"
  then show "(drop (leadingSpace s) s, s) \<in> measure length"
    using leadingSpace_le [of s] by (cases s) auto
qed

function TrimRightSpace :: "string \<Rightarrow> string" where
  "TrimRightSpace s =
     (if trailingSpace s = 0 then s else TrimRightSpace (take (length s - trailingSpace s) s))"
  by pat_completeness auto
termination
proof (relation "measure length")
  show "wf (measure length)" by simp
next
  fix s :: string
  assume "trailingSpace s \<noteq> 0"
  then show "(take (length s - trailingSpace s) s, s) \<in> measure length"
    using trailingSpace_le [of s] by (cases s) auto
qed

declare TrimLeftSpace.simps [simp del] TrimRightSpace.simps [simp del]

definition TrimSpace :: "string \<Rightarrow> string" where
  "TrimSpace s = TrimRightSpace (TrimLeftSpace s)"

text \<open>\<open>func hasBlankLine(s string) bool\<close>.\<close>

definition hasBlankLine :: "string \<Rightarrow> bool" where
  "hasBlankLine s = list_ex (\<lambda>text. TrimSpace text = []) (scanLines [] s)"

section \<open>The host test framework\<close>

text \<open>What the code observes of a \<open>*testing.T\<close>: whether it has failed, whether it was
  skipped, and the fatal reports made on it, each with the position prefix that
  \<open>TestData.Fatalf\<close> puts in front (\<open>None\<close> for a plain \<open>t.Fatalf\<close>). When a subtest
  completes, its failure and its reports pass to the parent.\<close>

type_synonym report = "string option \<times> message"

record T =
  failed :: bool
  skipped :: bool
  reports :: "report list"

definition newT :: T where
  "newT = \<lparr>failed = False, skipped = False, reports = []\<rparr>"

text \<open>How a call ends on its goroutine: it returns, the goroutine exits
  (\<open>runtime.Goexit\<close>, which is how \<open>FailNow\<close> and \<open>SkipNow\<close> end a test), or it
  panics.\<close>

datatype ending = Normal | Goexit | Panic

text \<open>The caller's function \<open>f\<close>, by what it does with the \<open>*testing.T\<close> it is given:
  whether it marks the test failed on the way (\<open>t.Error\<close>), and how it ends: it returns
  its text, calls \<open>t.Fatal\<close> or \<open>t.FailNow\<close>, calls \<open>t.Skip\<close>, or panics. It is taken to
  leave the record it is shown as it is.\<close>

datatype handler_end = Returns string | CallsFailNow | CallsSkipNow | Panics

type_synonym handler = "TestData \<Rightarrow> bool \<times> handler_end"

section \<open>The reader\<close>

text \<open>Modelled from the spec: the record stream supplier \<open>testDataReader\<close> is defined in
  another file of the repository. The specification gives its interface: an advance
  operation that reports whether another record exists, the current record, a rewrite
  buffer that exists in rewrite mode only, and an \<open>emit\<close> primitive that appends text to
  that buffer. \<open>stream\<close> holds the records not yet read. What \<open>emit\<close> appends for a
  given text is left open: \<open>emitter\<close> maps the buffer and the text to the new buffer.\<close>

record testDataReader =
  stream :: "TestData list"
  data :: TestData
  rewrite :: "string option"
  emitter :: "string \<Rightarrow> string \<Rightarrow> string"

text \<open>Modelled from the spec: \<open>r.Next(t)\<close>, the advance operation. It returns whether
  there is another record and makes it the current one. The records arrive parsed: how
  the reader turns the bytes of the file into records, and what it does with bytes it
  cannot parse, is outside this file.\<close>

definition Next :: "testDataReader \<Rightarrow> bool \<times> testDataReader" where
  "Next r = (case stream r of
               [] \<Rightarrow> (False, r)
             | d # ds \<Rightarrow> (True, r\<lparr>stream := ds, data := d\<rparr>))"

text \<open>Modelled from the spec: \<open>r.emit(s)\<close>.\<close>

definition emit :: "testDataReader \<Rightarrow> string \<Rightarrow> testDataReader" where
  "emit r s = r\<lparr>rewrite := map_option (\<lambda>buf. emitter r buf s) (rewrite r)\<rparr>"

text \<open>\<open>r.rewrite.WriteString(s)\<close> of \<open>bytes.Buffer\<close>.\<close>

definition WriteString :: "testDataReader \<Rightarrow> string \<Rightarrow> testDataReader" where
  "WriteString r s = r\<lparr>rewrite := map_option (\<lambda>buf. buf @ s) (rewrite r)\<rparr>"

section \<open>The directive and subtest state machine\<close>

text \<open>\<open>func (td TestData) Fatalf(tb, format, args...)\<close>: the report with the position in
  front, on a test that is now failed. The caller's goroutine ends there.\<close>

definition Fatalf :: "TestData \<Rightarrow> T \<Rightarrow> message \<Rightarrow> T" where
  "Fatalf td t m = t\<lparr>failed := True, reports := reports t @ [(Some (Pos td), m)]\<rparr>"

text \<open>\<open>func isSubTestStart(t, r, mandatorySubTestPrefix) (string, bool)\<close>. \<open>Inl\<close> is the
  test after a \<open>Fatalf\<close>.\<close>

definition isSubTestStart :: "T \<Rightarrow> testDataReader \<Rightarrow> string \<Rightarrow> T + string \<times> bool" where
  "isSubTestStart t r mandatorySubTestPrefix =
     (if Cmd (data r) \<noteq> ''subtest'' then Inr ([], False)
      else if length (CmdArgs (data r)) \<noteq> 1
        then Inl (Fatalf (data r) t InvalidSyntaxSubtest)
      else
        let subTestName = Key (CmdArgs (data r) ! 0) in
        if subTestName = ''end'' then Inl (Fatalf (data r) t EndWithoutStart)
        else if \<not> HasPrefix subTestName mandatorySubTestPrefix
          then Inl (Fatalf (data r) t (MustBeginWith mandatorySubTestPrefix))
        else Inr (subTestName, True))"

text \<open>\<open>func isSubTestEnd(t, r) bool\<close>.\<close>

definition isSubTestEnd :: "T \<Rightarrow> testDataReader \<Rightarrow> T + bool" where
  "isSubTestEnd t r =
     (if Cmd (data r) \<noteq> ''subtest'' then Inr False
      else if length (CmdArgs (data r)) = 0 \<or> Key (CmdArgs (data r) ! 0) \<noteq> ''end''
        then Inr False
      else if length (CmdArgs (data r)) > 2
        then Inl (Fatalf (data r) t InvalidSyntaxEnd)
      else Inr True)"

text \<open>\<open>func runDirective(t, r, f)\<close>. A panic of \<open>f\<close> is announced and raised again; a
  \<open>Goexit\<close> passes the deferred \<open>recover\<close> untouched. The verbose echo of a matching
  directive writes to standard output only and is left out.\<close>

definition runDirective :: "handler \<Rightarrow> T \<Rightarrow> testDataReader \<Rightarrow> ending \<times> T \<times> testDataReader" where
  "runDirective f t r =
     (let d = data r in
      case f d of
        (e, Panics) \<Rightarrow> (Panic, t\<lparr>failed := failed t \<or> e\<rparr>, r)
      | (e, CallsFailNow) \<Rightarrow> (Goexit, t\<lparr>failed := True\<rparr>, r)
      | (e, CallsSkipNow) \<Rightarrow> (Goexit, t\<lparr>failed := failed t \<or> e, skipped := True\<rparr>, r)
      | (e, Returns out) \<Rightarrow>
          let actual = normalize_actual out;
              t1 = t\<lparr>failed := failed t \<or> e\<rparr>
          in if failed t1 then (Goexit, t1, r)
             else if rewrite r \<noteq> None then
               (let r1 = emit r ''----'' in
                if hasBlankLine actual
                then (Normal, t1, emit (emit (WriteString (emit r1 ''----'') actual) ''----'') ''----'')
                else (Normal, t1, emit r1 actual))
             else if Expected d \<noteq> actual then
               (Goexit,
                t1\<lparr>failed := True,
                   reports := reports t1 @ [(None, OutputMismatch (Pos d) (Input d) (Expected d) actual)]\<rparr>,
                r)
             else (Normal, t1, r))"

text \<open>\<open>runDirectiveOrSubTest\<close>, \<open>runSubTest\<close> and the body of the closure that
  \<open>runSubTest\<close> hands to \<open>t.Run\<close>. \<open>t.Run\<close> runs the closure on a new test and waits
  for it; the closure's parameter \<open>t\<close> is that new test, the code after \<open>t.Run\<close> uses the
  outer one. \<open>subTestBody\<close> returns how the closure ended together with \<open>seenSubTestEnd\<close>;
  \<open>seenSkip\<close> is \<open>t.Skipped()\<close> of the new test, read by the deferred function.\<close>

function (domintros) runDirectiveOrSubTest ::
    "handler \<Rightarrow> T \<Rightarrow> testDataReader \<Rightarrow> string \<Rightarrow> ending \<times> T \<times> testDataReader"
  and runSubTest ::
    "handler \<Rightarrow> string \<Rightarrow> T \<Rightarrow> testDataReader \<Rightarrow> ending \<times> T \<times> testDataReader"
  and subTestBody ::
    "handler \<Rightarrow> string \<Rightarrow> T \<Rightarrow> testDataReader \<Rightarrow> (ending \<times> bool) \<times> T \<times> testDataReader"
where
  "runDirectiveOrSubTest f t r mandatorySubTestPrefix =
     (case isSubTestStart t r mandatorySubTestPrefix of
        Inl t' \<Rightarrow> (Goexit, t', r)
      | Inr (subTestName, ok) \<Rightarrow>
          (case (if ok then runSubTest f subTestName t r else runDirective f t r) of
             (Normal, t', r') \<Rightarrow> if failed t' then (Goexit, t', r') else (Normal, t', r')
           | res \<Rightarrow> res))"
| "runSubTest f subTestName t r =
     (let subTestStartPos = Pos (data r) in
      case subTestBody f subTestName newT r of
        ((e, seenSubTestEnd), ti, r') \<Rightarrow>
          let t1 = t\<lparr>failed := failed t \<or> failed ti, reports := reports t @ reports ti\<rparr>;
              seenSkip = skipped ti
          in if e = Panic then (Panic, t1, r')
             else if seenSkip
               then (Goexit, Fatalf (data r') t1 (SkipInsideSubtest subTestStartPos), r')
             else if seenSubTestEnd \<and> length (CmdArgs (data r')) = 2 \<and>
                     Key (CmdArgs (data r') ! 1) \<noteq> subTestName
               then (Goexit,
                     Fatalf (data r') t1 (MismatchedEnd (Key (CmdArgs (data r') ! 1)) subTestName),
                     r')
             else if \<not> seenSubTestEnd \<and> \<not> failed t1
               then (Goexit, Fatalf (data r') t1 (EOFWithoutEnd subTestStartPos), r')
             else (Normal, t1, r'))"
| "subTestBody f subTestName t r =
     (case Next r of
        (False, r1) \<Rightarrow> ((Normal, False), t, r1)
      | (True, r1) \<Rightarrow>
          (case isSubTestEnd t r1 of
             Inl t' \<Rightarrow> ((Goexit, False), t', r1)
           | Inr True \<Rightarrow> ((Normal, True), t, r1)
           | Inr False \<Rightarrow>
               (case runDirectiveOrSubTest f t r1 (subTestName @ ''/'') of
                  (Normal, t2, r2) \<Rightarrow> subTestBody f subTestName t2 r2
                | (e, t2, r2) \<Rightarrow> ((e, False), t2, r2))))"
  by pat_completeness auto

text \<open>Termination: no call lengthens the stream, and every turn of the loop takes a
  record from it.\<close>

lemma stream_emit [simp]: "stream (emit r s) = stream r"
  by (simp add: emit_def)

lemma stream_WriteString [simp]: "stream (WriteString r s) = stream r"
  by (simp add: WriteString_def)

lemma stream_runDirective: "stream (snd (snd (runDirective f t r))) = stream r"
  by (simp add: runDirective_def Let_def split: prod.splits handler_end.splits)

lemma Next_True: "Next r = (True, r1) \<Longrightarrow> length (stream r1) < length (stream r)"
  by (auto simp: Next_def split: list.splits)

lemma Next_False: "Next r = (False, r1) \<Longrightarrow> r1 = r"
  by (auto simp: Next_def split: list.splits)

lemma stream_le_partial:
  "runDirectiveOrSubTest_runSubTest_subTestBody_dom (Inl (f, t, r, p)) \<Longrightarrow>
     length (stream (snd (snd (runDirectiveOrSubTest f t r p)))) \<le> length (stream r)"
  "runDirectiveOrSubTest_runSubTest_subTestBody_dom (Inr (Inl (f, n, t, r))) \<Longrightarrow>
     length (stream (snd (snd (runSubTest f n t r)))) \<le> length (stream r)"
  "runDirectiveOrSubTest_runSubTest_subTestBody_dom (Inr (Inr (f, n, t, r))) \<Longrightarrow>
     length (stream (snd (snd (subTestBody f n t r)))) \<le> length (stream r)"
proof (induction rule: runDirectiveOrSubTest_runSubTest_subTestBody.pinduct)
  case (1 f t r p)
  show ?case
  proof (cases "isSubTestStart t r p")
    case (Inl t')
    then show ?thesis using "1.hyps" by (simp add: runDirectiveOrSubTest.psimps)
  next
    case (Inr b)
    obtain name ok where b: "b = (name, ok)" by (cases b)
    show ?thesis
    proof (cases ok)
      case True
      have "length (stream (snd (snd (runSubTest f name t r)))) \<le> length (stream r)"
        using "1.IH" [of b name ok] Inr b True by simp
      then show ?thesis using "1.hyps" Inr b True
        by (auto simp: runDirectiveOrSubTest.psimps split: prod.splits ending.splits)
    next
      case False
      have "length (stream (snd (snd (runDirective f t r)))) \<le> length (stream r)"
        by (simp add: stream_runDirective)
      then show ?thesis using "1.hyps" Inr b False
        by (auto simp: runDirectiveOrSubTest.psimps split: prod.splits ending.splits)
    qed
  qed
next
  case (2 f n t r)
  have "length (stream (snd (snd (subTestBody f n newT r)))) \<le> length (stream r)"
    using "2.IH" by simp
  then show ?case using "2.hyps"
    by (auto simp: runSubTest.psimps Let_def split: prod.splits)
next
  case (3 f n t r)
  show ?case
  proof (cases "Next r")
    case (Pair more r1)
    show ?thesis
    proof (cases more)
      case False
      then show ?thesis using "3.hyps" Pair Next_False [of r r1]
        by (simp add: subTestBody.psimps)
    next
      case True
      have lt: "length (stream r1) < length (stream r)" using Pair True Next_True by simp
      show ?thesis
      proof (cases "isSubTestEnd t r1")
        case (Inl t')
        then show ?thesis using "3.hyps" Pair True lt by (simp add: subTestBody.psimps)
      next
        case (Inr b)
        show ?thesis
        proof (cases b)
          case True
          then show ?thesis using "3.hyps" Pair \<open>more\<close> Inr lt by (simp add: subTestBody.psimps)
        next
          case False
          have ih1: "length (stream (snd (snd (runDirectiveOrSubTest f t r1 (n @ ''/''))))) \<le> length (stream r1)"
            using "3.IH"(1) [of more r1 b] Pair \<open>more\<close> Inr False by simp
          obtain e t2 r2 where res: "runDirectiveOrSubTest f t r1 (n @ ''/'') = (e, t2, r2)"
            by (cases "runDirectiveOrSubTest f t r1 (n @ ''/'')") auto
          have le2: "length (stream r2) \<le> length (stream r1)" using ih1 res by simp
          show ?thesis
          proof (cases "e = Normal")
            case True
            have "length (stream (snd (snd (subTestBody f n t2 r2)))) \<le> length (stream r2)"
              using "3.IH"(2) [of more r1 b e "(t2, r2)" t2 r2] Pair \<open>more\<close> Inr False res True by simp
            then show ?thesis using "3.hyps" Pair \<open>more\<close> Inr False res True le2 lt
              by (simp add: subTestBody.psimps)
          next
            case False
            then show ?thesis using "3.hyps" Pair \<open>more\<close> Inr \<open>\<not> b\<close> res le2 lt
              by (cases e) (simp_all add: subTestBody.psimps)
          qed
        qed
      qed
    qed
  qed
qed

termination runDirectiveOrSubTest
proof (relation "measures [\<lambda>x. case x of Inl (f, t, r, p) \<Rightarrow> length (stream r)
                                   | Inr (Inl (f, n, t, r)) \<Rightarrow> length (stream r)
                                   | Inr (Inr (f, n, t, r)) \<Rightarrow> length (stream r),
                             \<lambda>x. case x of Inl _ \<Rightarrow> 2 | Inr (Inl _) \<Rightarrow> 1 | Inr (Inr _) \<Rightarrow> 0]",
       goal_cases)
  case 1
  then show ?case by simp
next
  case (2 f t r p b x y)
  then show ?case by simp
next
  case (3 f n t r x)
  then show ?case by simp
next
  case (4 f n t r x y b)
  then show ?case using Next_True [of r y] by simp
next
  case (5 f n t r x y b xa ya xb yb)
  have "length (stream (snd (snd (runDirectiveOrSubTest f t y (n @ ''/''))))) \<le> length (stream y)"
    using 5 by (intro stream_le_partial(1)) simp
  moreover have "length (stream y) < length (stream r)" using 5 Next_True [of r y] by simp
  moreover have "snd (snd (runDirectiveOrSubTest f t y (n @ ''/''))) = yb"
    using 5 by (metis snd_conv)
  ultimately show ?case by simp
qed

lemma dom_total:
  "runDirectiveOrSubTest_runSubTest_subTestBody_dom (Inl (f, t, r, p))"
  "runDirectiveOrSubTest_runSubTest_subTestBody_dom (Inr (Inl (f, n, t, r)))"
  "runDirectiveOrSubTest_runSubTest_subTestBody_dom (Inr (Inr (f, n, t, r)))"
  by (induction f t r p and f n t r and f n t r
      rule: runDirectiveOrSubTest_runSubTest_subTestBody.induct)
     (auto intro: runDirectiveOrSubTest_runSubTest_subTestBody.domintros)

lemmas stream_le = stream_le_partial(1) [OF dom_total(1)] stream_le_partial(2) [OF dom_total(2)]
  stream_le_partial(3) [OF dom_total(3)]

declare runDirectiveOrSubTest.simps [simp del] runSubTest.simps [simp del]
  subTestBody.simps [simp del]

section \<open>runTestInternal\<close>

text \<open>The loop \<open>for r.Next(t) { runDirectiveOrSubTest(t, r, "", f) }\<close> of
  \<open>runTestInternal\<close>: at the top level the mandatory prefix is the empty string.\<close>

function topLevelLoop :: "handler \<Rightarrow> T \<Rightarrow> testDataReader \<Rightarrow> ending \<times> T \<times> testDataReader" where
  "topLevelLoop f t r =
     (case Next r of
        (False, r1) \<Rightarrow> (Normal, t, r1)
      | (True, r1) \<Rightarrow>
          (case runDirectiveOrSubTest f t r1 [] of
             (Normal, t2, r2) \<Rightarrow> topLevelLoop f t2 r2
           | res \<Rightarrow> res))"
  by pat_completeness auto
termination
proof (relation "measure (\<lambda>(f, t, r). length (stream r))", goal_cases)
  case 1
  then show ?case by simp
next
  case (2 f t r x y xa ya xb yb)
  have "length (stream (snd (snd (runDirectiveOrSubTest f t y [])))) \<le> length (stream y)"
    by (rule stream_le(1))
  moreover have "length (stream y) < length (stream r)" using 2 Next_True [of r y] by simp
  moreover have "snd (snd (runDirectiveOrSubTest f t y [])) = yb"
    using 2 by (metis snd_conv)
  ultimately show ?case by simp
qed

declare topLevelLoop.simps [simp del]

text \<open>What \<open>runTestInternal\<close> does with the bytes of the rewrite buffer before it
  writes them.\<close>

definition rewriteData :: "string \<Rightarrow> string" where
  "rewriteData bytes =
     (let l = length bytes in
      if l > 2 \<and> bytes ! (l - 1) = NL \<and> bytes ! (l - 2) = NL then take (l - 1) bytes
      else bytes)"

text \<open>Where the bytes go: into the file, from offset 0 and truncated to their length,
  when the input is a file; into the log otherwise. The reader is given as
  \<open>newTestDataReader\<close> returns it, with a rewrite buffer exactly when \<open>rewrite\<close> is
  set. Errors of the file system are left out.\<close>

datatype written = NoRewrite | FileContents string | Logged string

definition runTestInternal ::
  "handler \<Rightarrow> T \<Rightarrow> testDataReader \<Rightarrow> bool \<Rightarrow> ending \<times> T \<times> written" where
  "runTestInternal f t r isFile =
     (case topLevelLoop f t r of
        (Normal, t', r') \<Rightarrow>
          (case rewrite r' of
             None \<Rightarrow> (Normal, t', NoRewrite)
           | Some buf \<Rightarrow>
               let bytes = rewriteData buf in
               (Normal, t', if isFile then FileContents bytes else Logged bytes))
      | (e, t', r') \<Rightarrow> (e, t', NoRewrite))"

section \<open>Concrete inputs for the examples\<close>

text \<open>A record with the given position, command and bare arguments; a reader about to
  read the given records, whose \<open>emit\<close> appends the text as it is; and some handlers:
  one that returns the expected text, one that reports an error and returns, one that
  skips.\<close>

definition directive :: "string \<Rightarrow> string \<Rightarrow> string list \<Rightarrow> TestData" where
  "directive pos cmd keys =
     \<lparr>Pos = pos, Cmd = cmd, CmdArgs = map (\<lambda>k. \<lparr>Key = k, Vals = []\<rparr>) keys, Input = [],
      Expected = []\<rparr>"

definition reader0 :: "TestData list \<Rightarrow> string option \<Rightarrow> testDataReader" where
  "reader0 ds rw =
     \<lparr>stream = ds, data = \<lparr>Pos = [], Cmd = [], CmdArgs = [], Input = [], Expected = []\<rparr>,
      rewrite = rw, emitter = (\<lambda>buf s. buf @ s)\<rparr>"

definition echo :: handler where
  "echo d = (False, Returns (Expected d))"

definition softFail :: handler where
  "softFail d = (True, Returns (Expected d))"

definition skipper :: handler where
  "skipper d = (False, CallsSkipNow)"

text \<open>What \<open>isSubTestEnd\<close> takes for a subtest-end record: the command \<open>subtest\<close>
  with \<open>end\<close> as its first argument.\<close>

definition endRecord :: "TestData \<Rightarrow> bool" where
  "endRecord d \<longleftrightarrow> Cmd d = ''subtest'' \<and> CmdArgs d \<noteq> [] \<and> Key (CmdArgs d ! 0) = ''end''"

text \<open>Following the spec's words, "a line that is empty after trimming whitespace":
  the lines of a text are its pieces between line terminators; what follows the last
  terminator is a line when it is not empty.\<close>

fun textLines :: "string \<Rightarrow> string \<Rightarrow> string list" where
  "textLines line [] = (if line = [] then [] else [line])"
| "textLines line (c # cs) =
     (if c = NL then line # textLines [] cs else textLines (line @ [c]) cs)"

text \<open>The number of bytes of the white-space rune that begins with a given byte.\<close>

definition runeLen :: "char \<Rightarrow> nat" where
  "runeLen c = (if (of_char c :: nat) < 0x80 then 1 else if c = CHR 0xC2 then 2 else 3)"

text \<open>A handler result with a line of 65536 bytes followed by an empty line, and a short
  one with an empty line.\<close>

definition longLine :: string where
  "longLine = replicate 65536 (CHR ''x'')"

definition longOutput :: string where
  "longOutput = longLine @ [NL, NL]"

definition longHandler :: handler where
  "longHandler d = (False, Returns longOutput)"

definition shortOutput :: string where
  "shortOutput = ''a'' @ [NL, NL] @ ''b'' @ [NL]"

definition shortHandler :: handler where
  "shortHandler d = (False, Returns shortOutput)"

section \<open>Properties\<close>

subsection \<open>Output normalization\<close>

lemma HasSuffix_NL: "HasSuffix s [NL] \<longleftrightarrow> s \<noteq> [] \<and> last s = NL"
  unfolding HasSuffix_def
  by (cases s rule: rev_cases) auto



subsection \<open>CmdArg.String\<close>

lemma Join_concat: "Join (v # vs) sep = v @ concat (map (\<lambda>x. sep @ x) vs)"
  by (induction vs arbitrary: v) auto

text \<open>C9: \<open>String\<close> yields the bare key for no value, \<open>key=value\<close> for one value, and
  \<open>key=(v1, v2, ...)\<close> for two or more, the values in their order, each preceded by a
  comma and a space from the second on.\<close>

theorem String_canonical_forms:
  "String \<lparr>Key = k, Vals = []\<rparr> = k \<and>
   String \<lparr>Key = k, Vals = [v]\<rparr> = k @ ''='' @ v \<and>
   String \<lparr>Key = k, Vals = v1 # v2 # vs\<rparr> =
     k @ ''=('' @ v1 @ concat (map (\<lambda>v. '', '' @ v) (v2 # vs)) @ '')''"
  by (simp add: String_def Join_concat del: Join.simps)

subsection \<open>ScanArgs\<close>

lemma lookupArg_empty_key: "Key (lookupArg as []) = []"
  by (induction as) auto

text \<open>C10: with the empty string as key, \<open>ScanArgs\<close> reports a missing argument and
  leaves the record and every destination alone, whatever the argument list holds: the
  argument found for the empty key has the empty key, which is the sentinel for
  "not found".\<close>

theorem ScanArgs_empty_key_missing:
  "ScanArgs td [] dests \<sigma> = Inl (MissingArgument [], CmdArgs td, \<sigma>)"
  by (simp add: ScanArgs_def lookupArg_empty_key)

text \<open>C4 at a record whose only argument has the empty string as key and the one value
  \<open>x\<close>, scanned into one \<open>*string\<close>. \<open>HasArg\<close> finds the argument; it has as many
  values as there are destinations, and a string converts to a string. \<open>ScanArgs\<close>
  reports a missing argument and stores nothing. The same record with the key \<open>k\<close>
  is scanned and \<open>x\<close> is stored.\<close>

theorem ScanArgs_empty_key_present:
  "HasArg (td_ex [\<lparr>Key = [], Vals = [''x'']\<rparr>]) [] \<and>
   ScanArgs (td_ex [\<lparr>Key = [], Vals = [''x'']\<rparr>]) [] [StringPtr 0] store0
     = Inl (MissingArgument [], [\<lparr>Key = [], Vals = [''x'']\<rparr>], store0) \<and>
   HasArg (td_ex [\<lparr>Key = ''k'', Vals = [''x'']\<rparr>]) ''k'' \<and>
   ScanArgs (td_ex [\<lparr>Key = ''k'', Vals = [''x'']\<rparr>]) ''k'' [StringPtr 0] store0
     = Inr ([\<lparr>Key = ''k'', Vals = [''x'']\<rparr>], store0\<lparr>strings := (strings store0)(0 := ''x'')\<rparr>)"
  by (simp add: HasArg_def ScanArgs_def td_ex_def Scan_def Let_def)

text \<open>A destination that points into the values being scanned. On \<open>k=(50, x)\<close> the call
  \<open>ScanArgs(t, "k", &td.CmdArgs[0].Vals[1], &n)\<close> stores \<open>50\<close> over \<open>x\<close> at index 0
  and then parses \<open>50\<close> at index 1. On \<open>k=(x, 50)\<close> it stores \<open>x\<close> over \<open>50\<close> and
  then fails to parse \<open>x\<close>.\<close>

lemma ParseInt_50: "ParseInt ''50'' = (50, None)"
  by (simp add: ParseInt_def ParseUint_def maxUint64_def)

lemma ParseInt_x: "ParseInt ''x'' = (0, Some ErrSyntax)"
  by (simp add: ParseInt_def ParseUint_def maxUint64_def)

lemma ScanArgs_into_own_values:
  "ScanArgs (td_ex [\<lparr>Key = ''k'', Vals = [''50'', ''x'']\<rparr>]) ''k'' [ValsPtr 0 1, IntPtr 0] store0
     = Inr ([\<lparr>Key = ''k'', Vals = [''50'', ''50'']\<rparr>], store0\<lparr>ints := (ints store0)(0 := 50)\<rparr>)"
  "ScanArgs (td_ex [\<lparr>Key = ''k'', Vals = [''x'', ''50'']\<rparr>]) ''k'' [ValsPtr 0 1, IntPtr 0] store0
     = Inl (ParseFailed ''ParseInt'' ''x'' ErrSyntax, [\<lparr>Key = ''k'', Vals = [''x'', ''x'']\<rparr>], store0)"
  by (simp_all add: ScanArgs_def td_ex_def Scan_def setVal_def ParseInt_50 ParseInt_x Let_def)

subsection \<open>Subtests: what a run leaves on the test\<close>

lemma skipped_Fatalf [simp]: "skipped (Fatalf td t m) = skipped t"
  by (simp add: Fatalf_def)

lemma failed_Fatalf [simp]: "failed (Fatalf td t m)"
  by (simp add: Fatalf_def)

lemma skipped_runSubTest: "runSubTest f n t r = (e, t', r') \<Longrightarrow> skipped t' = skipped t"
  by (auto simp: runSubTest.simps Let_def split: prod.splits if_splits)

lemma skipped_runDirective:
  "runDirective f t r = (e, t', r') \<Longrightarrow> skipped t' \<Longrightarrow> skipped t \<or> e = Goexit"
  by (auto simp: runDirective_def Let_def split: prod.splits handler_end.splits if_splits)

lemma skipped_isSubTestStart: "isSubTestStart t r p = Inl t' \<Longrightarrow> skipped t' = skipped t"
  by (auto simp: isSubTestStart_def Let_def split: if_splits)

lemma skipped_isSubTestEnd: "isSubTestEnd t r = Inl t' \<Longrightarrow> skipped t' = skipped t"
  by (auto simp: isSubTestEnd_def split: if_splits)

lemma runDirectiveOrSubTest_flags:
  assumes "runDirectiveOrSubTest f t r p = (e, t', r')"
  shows "skipped t' \<longrightarrow> skipped t \<or> e = Goexit" and "e = Normal \<longrightarrow> \<not> failed t'"
proof -
  show "e = Normal \<longrightarrow> \<not> failed t'"
    using assms
    by (auto simp: runDirectiveOrSubTest.simps split: sum.splits prod.splits ending.splits if_splits)
  show "skipped t' \<longrightarrow> skipped t \<or> e = Goexit"
  proof (cases "isSubTestStart t r p")
    case (Inl t1)
    then show ?thesis using assms skipped_isSubTestStart [OF Inl]
      by (auto simp: runDirectiveOrSubTest.simps)
  next
    case (Inr b)
    obtain name ok where b: "b = (name, ok)" by (cases b)
    show ?thesis
    proof (cases ok)
      case True
      obtain e1 t1 r1 where sub: "runSubTest f name t r = (e1, t1, r1)"
        by (cases "runSubTest f name t r") auto
      have "skipped t1 = skipped t" using sub by (rule skipped_runSubTest)
      moreover have "t' = t1" using assms Inr b True sub
        by (auto simp: runDirectiveOrSubTest.simps split: ending.splits if_splits)
      ultimately show ?thesis by simp
    next
      case False
      obtain e1 t1 r1 where dir: "runDirective f t r = (e1, t1, r1)"
        by (cases "runDirective f t r") auto
      have t': "t' = t1" using assms Inr b False dir
        by (auto simp: runDirectiveOrSubTest.simps split: ending.splits if_splits)
      have e: "e1 = Goexit \<longrightarrow> e = Goexit" using assms Inr b False dir
        by (auto simp: runDirectiveOrSubTest.simps split: ending.splits if_splits)
      show ?thesis using skipped_runDirective [OF dir] t' e by auto
    qed
  qed
qed

lemma isSubTestEnd_True: "isSubTestEnd t r = Inr True \<Longrightarrow> endRecord (data r) \<and> length (CmdArgs (data r)) \<le> 2"
  by (auto simp: isSubTestEnd_def endRecord_def split: if_splits)

lemma subTestBody_result:
  "subTestBody f n t r = ((e, seenEnd), ti, r') \<Longrightarrow>
     (skipped ti \<longrightarrow> skipped t \<or> e = Goexit) \<and>
     (seenEnd \<longrightarrow> e = Normal \<and> endRecord (data r') \<and> length (CmdArgs (data r')) \<le> 2) \<and>
     (e = Normal \<longrightarrow> (failed ti \<longrightarrow> failed t)) \<and>
     (e = Normal \<and> \<not> seenEnd \<longrightarrow> stream r' = [])"
proof (induction f n t r arbitrary: e seenEnd ti r'
    rule: runDirectiveOrSubTest_runSubTest_subTestBody.induct(3)
      [where P = "\<lambda>_ _ _ _. True" and Q = "\<lambda>_ _ _ _. True"])
  case (1 f t r p)
  show ?case by simp
next
  case (2 f n t r)
  show ?case by simp
next
  case (3 f n t r)
  note res = "3.prems"
  show ?case
  proof (cases "Next r")
    case (Pair more r1)
    show ?thesis
    proof (cases more)
      case False
      have "stream r = []" using Pair False by (auto simp: Next_def split: list.splits)
      then show ?thesis using res Pair False Next_False [of r r1]
        by (auto simp: subTestBody.simps)
    next
      case True
      show ?thesis
      proof (cases "isSubTestEnd t r1")
        case (Inl t1)
        then show ?thesis using res Pair True skipped_isSubTestEnd [OF Inl]
          by (auto simp: subTestBody.simps)
      next
        case (Inr b)
        show ?thesis
        proof (cases b)
          case True
          then show ?thesis using res Pair \<open>more\<close> Inr isSubTestEnd_True [of t r1]
            by (auto simp: subTestBody.simps)
        next
          case False
          obtain e2 t2 r2 where step: "runDirectiveOrSubTest f t r1 (n @ ''/'') = (e2, t2, r2)"
            by (cases "runDirectiveOrSubTest f t r1 (n @ ''/'')") auto
          note fl = runDirectiveOrSubTest_flags [OF step]
          show ?thesis
          proof (cases "e2 = Normal")
            case True
            have rec: "subTestBody f n t2 r2 = ((e, seenEnd), ti, r')"
              using res Pair \<open>more\<close> Inr False step True by (simp add: subTestBody.simps)
            have ih: "(skipped ti \<longrightarrow> skipped t2 \<or> e = Goexit) \<and>
                (seenEnd \<longrightarrow> e = Normal \<and> endRecord (data r') \<and> length (CmdArgs (data r')) \<le> 2) \<and>
                (e = Normal \<longrightarrow> (failed ti \<longrightarrow> failed t2)) \<and>
                (e = Normal \<and> \<not> seenEnd \<longrightarrow> stream r' = [])"
              using "3.IH" [of more r1 b e2 "(t2, r2)" t2 r2 e seenEnd ti r']
                Pair \<open>more\<close> Inr False step True rec by simp
            show ?thesis using ih fl True by auto
          next
            case False
            then have "e = e2 \<and> \<not> seenEnd \<and> ti = t2"
              using res Pair \<open>more\<close> Inr \<open>\<not> b\<close> step
              by (cases e2) (auto simp: subTestBody.simps)
            then show ?thesis using fl False by auto
          qed
        qed
      qed
    qed
  qed
qed

lemma newT_flags [simp]: "\<not> failed newT" "\<not> skipped newT" "reports newT = []"
  by (simp_all add: newT_def)

lemma HasPrefix_Nil [simp]: "HasPrefix s []"
  by (simp add: HasPrefix_def)

lemmas run_simps = topLevelLoop.simps runDirectiveOrSubTest.simps runSubTest.simps
  subTestBody.simps Next_def isSubTestStart_def isSubTestEnd_def runDirective_def
  reader0_def directive_def echo_def newT_def Fatalf_def HasPrefix_def Let_def
  normalize_actual_def

lemmas run_simps2 = run_simps softFail_def skipper_def endRecord_def

subsection \<open>Subtest names\<close>




text \<open>Inside the group \<open>foo\<close>: \<open>foo/bar\<close> runs, \<open>bar\<close> is fatal.\<close>

lemma nested_examples:
  "topLevelLoop echo newT (reader0 [directive ''f:1'' ''subtest'' [''foo''],
       directive ''f:2'' ''subtest'' [''foo/bar''], directive ''f:3'' ''subtest'' [''end''],
       directive ''f:4'' ''subtest'' [''end'']] None)
     = (Normal, newT, reader0 [] None\<lparr>data := directive ''f:4'' ''subtest'' [''end'']\<rparr>)"
  "fst (snd (topLevelLoop echo newT (reader0 [directive ''f:1'' ''subtest'' [''foo''],
       directive ''f:2'' ''subtest'' [''bar''], directive ''f:3'' ''subtest'' [''end''],
       directive ''f:4'' ''subtest'' [''end'']] None)))
     = \<lparr>failed = True, skipped = False, reports = [(Some ''f:2'', MustBeginWith ''foo/'')]\<rparr>"
  by (simp_all add: run_simps)

subsection \<open>End of the stream inside a group\<close>

text \<open>C5, as the code has it. When the reader reports the end of the stream inside the
  group \<open>n\<close> (the closure returns without having seen the end marker), the run is
  stopped: \<open>runDirectiveOrSubTest\<close> ends the goroutine. When the enclosing test had not
  failed, this is by the fatal report that names the reader's current position and the
  position at which the group started. When it had failed already, there is no
  report.\<close>

theorem eof_in_open_group:
  assumes "subTestBody f n newT r = ((Normal, False), ti, r')"
  shows "stream r' = [] \<and>
         runSubTest f n t r =
           (if failed t then Normal else Goexit,
            t\<lparr>failed := True,
              reports := reports t @ reports ti @
                (if failed t then [] else [(Some (Pos (data r')), EOFWithoutEnd (Pos (data r)))])\<rparr>,
            r') \<and>
         (isSubTestStart t r pre = Inr (n, True) \<longrightarrow>
            fst (runDirectiveOrSubTest f t r pre) = Goexit)"
proof -
  from subTestBody_result [OF assms]
  have inv: "\<not> skipped ti" "\<not> failed ti" "stream r' = []" by auto
  have sub: "runSubTest f n t r =
           (if failed t then Normal else Goexit,
            t\<lparr>failed := True,
              reports := reports t @ reports ti @
                (if failed t then [] else [(Some (Pos (data r')), EOFWithoutEnd (Pos (data r)))])\<rparr>,
            r')"
    using assms inv by (cases "failed t") (simp_all add: runSubTest.simps Let_def Fatalf_def)
  have "isSubTestStart t r pre = Inr (n, True) \<longrightarrow> fst (runDirectiveOrSubTest f t r pre) = Goexit"
    using sub by (auto simp: runDirectiveOrSubTest.simps)
  with inv sub show ?thesis by blast
qed

theorem eof_in_open_group_witness:
  "runSubTest echo ''foo'' newT (reader0 [] None\<lparr>data := directive ''f:1'' ''subtest'' [''foo'']\<rparr>)
     = (Goexit,
        \<lparr>failed = True, skipped = False, reports = [(Some ''f:1'', EOFWithoutEnd ''f:1'')]\<rparr>,
        reader0 [] None\<lparr>data := directive ''f:1'' ''subtest'' [''foo'']\<rparr>)"
proof -
  have body: "subTestBody echo ''foo'' newT
      (reader0 [] None\<lparr>data := directive ''f:1'' ''subtest'' [''foo'']\<rparr>)
    = ((Normal, False), newT, reader0 [] None\<lparr>data := directive ''f:1'' ''subtest'' [''foo'']\<rparr>)"
    by (simp add: run_simps)
  show ?thesis
    using eof_in_open_group [OF body, of newT "[]"]
    by (simp add: reader0_def directive_def newT_def)
qed

text \<open>C5 as stated fails when a failure is already recorded. On a test that had failed
  before the run, the stream \<open>subtest foo\<close> ends inside the group and the run stops with
  no report. And when the handler of the last record reports an error, all records are
  read, the group is open, no end marker was seen, and again there is no report.\<close>

theorem eof_without_report:
  "topLevelLoop echo (newT\<lparr>failed := True\<rparr>) (reader0 [directive ''f:1'' ''subtest'' [''foo'']] None)
     = (Goexit, newT\<lparr>failed := True\<rparr>,
        reader0 [] None\<lparr>data := directive ''f:1'' ''subtest'' [''foo'']\<rparr>) \<and>
   topLevelLoop softFail newT
       (reader0 [directive ''f:1'' ''subtest'' [''foo''], directive ''f:2'' ''cmd'' []] None)
     = (Goexit, newT\<lparr>failed := True\<rparr>, reader0 [] None\<lparr>data := directive ''f:2'' ''cmd'' []\<rparr>)"
  by (simp add: run_simps2)

subsection \<open>The end marker\<close>

text \<open>C6. Inside the group \<open>n\<close>, a subtest-end record with more than one argument after
  \<open>end\<close> is fatal with the syntax report; any other subtest-end record ends the
  closure. Then, when the record has a second argument and its key is not \<open>n\<close>, the
  run is fatal with the mismatched-end report; otherwise \<open>runSubTest\<close> returns to its
  caller.\<close>

theorem subtest_end_name:
  "(stream r = d # ds \<and> endRecord d \<longrightarrow>
      subTestBody f n t r =
        (if length (CmdArgs d) > 2
         then ((Goexit, False), Fatalf d t InvalidSyntaxEnd, r\<lparr>stream := ds, data := d\<rparr>)
         else ((Normal, True), t, r\<lparr>stream := ds, data := d\<rparr>))) \<and>
   (subTestBody f n newT r = ((Normal, True), ti, r') \<longrightarrow>
      endRecord (data r') \<and> length (CmdArgs (data r')) \<le> 2 \<and>
      runSubTest f n t r =
        (if length (CmdArgs (data r')) = 2 \<and> Key (CmdArgs (data r') ! 1) \<noteq> n
         then (Goexit,
               t\<lparr>failed := True,
                 reports := reports t @ reports ti @
                   [(Some (Pos (data r')), MismatchedEnd (Key (CmdArgs (data r') ! 1)) n)]\<rparr>,
               r')
         else (Normal, t\<lparr>reports := reports t @ reports ti\<rparr>, r')))"
proof (intro conjI impI)
  assume a: "stream r = d # ds \<and> endRecord d"
  then show "subTestBody f n t r =
        (if length (CmdArgs d) > 2
         then ((Goexit, False), Fatalf d t InvalidSyntaxEnd, r\<lparr>stream := ds, data := d\<rparr>)
         else ((Normal, True), t, r\<lparr>stream := ds, data := d\<rparr>))"
    by (simp add: subTestBody.simps [of f n t r] Next_def isSubTestEnd_def endRecord_def)
next
  assume b: "subTestBody f n newT r = ((Normal, True), ti, r')"
  from subTestBody_result [OF b]
  have inv: "\<not> skipped ti" "\<not> failed ti" "endRecord (data r')" "length (CmdArgs (data r')) \<le> 2"
    by auto
  show "endRecord (data r')" by (rule inv)
  show "length (CmdArgs (data r')) \<le> 2" by (rule inv)
  show "runSubTest f n t r =
        (if length (CmdArgs (data r')) = 2 \<and> Key (CmdArgs (data r') ! 1) \<noteq> n
         then (Goexit,
               t\<lparr>failed := True,
                 reports := reports t @ reports ti @
                   [(Some (Pos (data r')), MismatchedEnd (Key (CmdArgs (data r') ! 1)) n)]\<rparr>,
               r')
         else (Normal, t\<lparr>reports := reports t @ reports ti\<rparr>, r'))"
    using b inv by (simp add: runSubTest.simps Let_def Fatalf_def)
qed

theorem subtest_end_name_witness:
  "subTestBody echo ''foo'' newT
       (reader0 [directive ''f:2'' ''subtest'' [''end'', ''foo'', ''x'']] None)
     = ((Goexit, False),
        \<lparr>failed = True, skipped = False, reports = [(Some ''f:2'', InvalidSyntaxEnd)]\<rparr>,
        reader0 [] None\<lparr>data := directive ''f:2'' ''subtest'' [''end'', ''foo'', ''x'']\<rparr>) \<and>
   runSubTest echo ''foo'' newT
       (reader0 [directive ''f:2'' ''subtest'' [''end'', ''bar'']] None\<lparr>data := directive ''f:1'' ''subtest'' [''foo'']\<rparr>)
     = (Goexit,
        \<lparr>failed = True, skipped = False, reports = [(Some ''f:2'', MismatchedEnd ''bar'' ''foo'')]\<rparr>,
        reader0 [] None\<lparr>data := directive ''f:2'' ''subtest'' [''end'', ''bar'']\<rparr>) \<and>
   runSubTest echo ''foo'' newT
       (reader0 [directive ''f:2'' ''subtest'' [''end'', ''foo'']] None\<lparr>data := directive ''f:1'' ''subtest'' [''foo'']\<rparr>)
     = (Normal, newT,
        reader0 [] None\<lparr>data := directive ''f:2'' ''subtest'' [''end'', ''foo'']\<rparr>)"
proof -
  let ?d3 = "directive ''f:2'' ''subtest'' [''end'', ''foo'', ''x'']"
  let ?dbar = "directive ''f:2'' ''subtest'' [''end'', ''bar'']"
  let ?dfoo = "directive ''f:2'' ''subtest'' [''end'', ''foo'']"
  let ?start = "directive ''f:1'' ''subtest'' [''foo'']"
  have 1: "subTestBody echo ''foo'' newT (reader0 [?d3] None)
     = ((Goexit, False),
        \<lparr>failed = True, skipped = False, reports = [(Some ''f:2'', InvalidSyntaxEnd)]\<rparr>,
        reader0 [] None\<lparr>data := ?d3\<rparr>)"
    using subtest_end_name [where r = "reader0 [?d3] None" and d = ?d3 and ds = "[]" and f = echo
        and n = "''foo''" and t = newT]
    by (simp add: reader0_def directive_def endRecord_def Fatalf_def newT_def)
  have bar: "subTestBody echo ''foo'' newT (reader0 [?dbar] None\<lparr>data := ?start\<rparr>)
     = ((Normal, True), newT, reader0 [] None\<lparr>data := ?dbar\<rparr>)"
    by (simp add: run_simps2)
  have 2: "runSubTest echo ''foo'' newT (reader0 [?dbar] None\<lparr>data := ?start\<rparr>)
     = (Goexit,
        \<lparr>failed = True, skipped = False, reports = [(Some ''f:2'', MismatchedEnd ''bar'' ''foo'')]\<rparr>,
        reader0 [] None\<lparr>data := ?dbar\<rparr>)"
    using subtest_end_name [where r = "reader0 [?dbar] None\<lparr>data := ?start\<rparr>" and f = echo
        and n = "''foo''" and t = newT and ti = newT and r' = "reader0 [] None\<lparr>data := ?dbar\<rparr>"] bar
    by (simp add: reader0_def directive_def newT_def)
  have foo: "subTestBody echo ''foo'' newT (reader0 [?dfoo] None\<lparr>data := ?start\<rparr>)
     = ((Normal, True), newT, reader0 [] None\<lparr>data := ?dfoo\<rparr>)"
    by (simp add: run_simps2)
  have 3: "runSubTest echo ''foo'' newT (reader0 [?dfoo] None\<lparr>data := ?start\<rparr>)
     = (Normal, newT, reader0 [] None\<lparr>data := ?dfoo\<rparr>)"
    using subtest_end_name [where r = "reader0 [?dfoo] None\<lparr>data := ?start\<rparr>" and f = echo
        and n = "''foo''" and t = newT and ti = newT and r' = "reader0 [] None\<lparr>data := ?dfoo\<rparr>"] foo
    by (simp add: reader0_def directive_def newT_def)
  show ?thesis using 1 2 3 by simp
qed

subsection \<open>Skip inside a subtest\<close>

text \<open>C7. When the handler of a directive in the body of the group \<open>n\<close> calls
  \<open>t.Skip\<close>, the closure ends with the subtest skipped; and whenever the closure ends
  with the subtest skipped, \<open>runSubTest\<close> is fatal with the report that names the
  position at which the group started.\<close>

theorem skip_inside_subtest:
  "(stream r = d # ds \<and> Cmd d \<noteq> ''subtest'' \<and> f d = (e, CallsSkipNow) \<longrightarrow>
      subTestBody f n t r =
        ((Goexit, False), t\<lparr>failed := failed t \<or> e, skipped := True\<rparr>,
         r\<lparr>stream := ds, data := d\<rparr>)) \<and>
   (subTestBody f n newT r = ((c, seenEnd), ti, r') \<and> skipped ti \<longrightarrow>
      runSubTest f n t r =
        (Goexit,
         t\<lparr>failed := True,
           reports := reports t @ reports ti @
             [(Some (Pos (data r')), SkipInsideSubtest (Pos (data r)))]\<rparr>,
         r'))"
proof (intro conjI impI)
  assume a: "stream r = d # ds \<and> Cmd d \<noteq> ''subtest'' \<and> f d = (e, CallsSkipNow)"
  then show "subTestBody f n t r =
        ((Goexit, False), t\<lparr>failed := failed t \<or> e, skipped := True\<rparr>,
         r\<lparr>stream := ds, data := d\<rparr>)"
    by (simp add: subTestBody.simps [of f n t r] Next_def isSubTestEnd_def
        runDirectiveOrSubTest.simps isSubTestStart_def runDirective_def)
next
  assume b: "subTestBody f n newT r = ((c, seenEnd), ti, r') \<and> skipped ti"
  from subTestBody_result [of f n newT r c seenEnd ti r'] b
  have "c = Goexit" by auto
  then show "runSubTest f n t r =
        (Goexit,
         t\<lparr>failed := True,
           reports := reports t @ reports ti @
             [(Some (Pos (data r')), SkipInsideSubtest (Pos (data r)))]\<rparr>,
         r')"
    using b by (simp add: runSubTest.simps Let_def Fatalf_def)
qed

theorem skip_inside_subtest_witness:
  "runSubTest skipper ''foo'' newT
       (reader0 [directive ''f:2'' ''cmd'' [], directive ''f:3'' ''subtest'' [''end'']] None
          \<lparr>data := directive ''f:1'' ''subtest'' [''foo'']\<rparr>)
     = (Goexit,
        \<lparr>failed = True, skipped = False, reports = [(Some ''f:2'', SkipInsideSubtest ''f:1'')]\<rparr>,
        reader0 [directive ''f:3'' ''subtest'' [''end'']] None\<lparr>data := directive ''f:2'' ''cmd'' []\<rparr>)"
proof -
  let ?r = "reader0 [directive ''f:2'' ''cmd'' [], directive ''f:3'' ''subtest'' [''end'']] None
          \<lparr>data := directive ''f:1'' ''subtest'' [''foo'']\<rparr>"
  let ?r' = "reader0 [directive ''f:3'' ''subtest'' [''end'']] None\<lparr>data := directive ''f:2'' ''cmd'' []\<rparr>"
  have body: "subTestBody skipper ''foo'' newT ?r = ((Goexit, False), newT\<lparr>skipped := True\<rparr>, ?r')"
    using skip_inside_subtest [where r = ?r and d = "directive ''f:2'' ''cmd'' []"
        and ds = "[directive ''f:3'' ''subtest'' [''end'']]" and f = skipper and e = False
        and n = "''foo''" and t = newT]
    by (simp add: reader0_def directive_def skipper_def newT_def)
  show ?thesis
    using skip_inside_subtest [where r = ?r and f = skipper and n = "''foo''" and t = newT
        and c = Goexit and seenEnd = False and ti = "newT\<lparr>skipped := True\<rparr>" and r' = ?r'] body
    by (simp add: reader0_def directive_def newT_def)
qed

subsection \<open>The last blank line of the rewrite buffer\<close>

lemma HasSuffix_NL_NL:
  "HasSuffix s [NL, NL] \<longleftrightarrow>
     length s \<ge> 2 \<and> s ! (length s - 1) = NL \<and> s ! (length s - 2) = NL"
proof (cases s rule: rev_cases)
  case Nil
  then show ?thesis by (simp add: HasSuffix_def)
next
  case (snoc xs b)
  show ?thesis
  proof (cases xs rule: rev_cases)
    case Nil
    then show ?thesis using snoc by (simp add: HasSuffix_def)
  next
    case (snoc ys a)
    then show ?thesis using \<open>s = xs @ [b]\<close> by (auto simp: HasSuffix_def nth_append)
  qed
qed

text \<open>C3, as the code has it. A buffer of more than two bytes that ends with two line
  terminators loses exactly its last byte; every other buffer is left as it is. Those
  bytes are what a rewrite run writes into the file.\<close>

theorem rewriteData_strips_one:
  "(length bytes > 2 \<and> HasSuffix bytes [NL, NL] \<longrightarrow>
      rewriteData bytes = butlast bytes \<and> length (rewriteData bytes) = length bytes - 1) \<and>
   (\<not> (length bytes > 2 \<and> HasSuffix bytes [NL, NL]) \<longrightarrow> rewriteData bytes = bytes) \<and>
   (topLevelLoop f t r = (Normal, t', r') \<and> rewrite r' = Some bytes \<longrightarrow>
      runTestInternal f t r True = (Normal, t', FileContents (rewriteData bytes)))"
  by (auto simp: rewriteData_def Let_def HasSuffix_NL_NL butlast_conv_take runTestInternal_def)

theorem rewriteData_strips_one_witness:
  "rewriteData (''a'' @ [NL, NL]) = ''a'' @ [NL] \<and> rewriteData (''a'' @ [NL]) = ''a'' @ [NL]"
  using rewriteData_strips_one [of "''a'' @ [NL, NL]" echo newT "reader0 [] None"]
    rewriteData_strips_one [of "''a'' @ [NL]" echo newT "reader0 [] None"]
  by (simp add: HasSuffix_def NL_def)

text \<open>C3 as stated fails at the buffer of exactly two line terminators: it ends with
  two consecutive line terminators and is written back unchanged.\<close>

theorem rewriteData_two_terminators:
  "HasSuffix [NL, NL] [NL, NL] \<and> rewriteData [NL, NL] = [NL, NL] \<and>
   runTestInternal echo newT (reader0 [] (Some [NL, NL])) True = (Normal, newT, FileContents [NL, NL])"
  by (simp add: HasSuffix_def rewriteData_def runTestInternal_def run_simps)

subsection \<open>The form of the expected-output section\<close>

text \<open>In rewrite mode, a directive whose handler returns on a test that has not failed
  gets the four-delimiter form when \<open>hasBlankLine\<close> holds of the normalized text, and
  the simple form otherwise.\<close>

lemma runDirective_rewrite:
  assumes "f (data r) = (False, Returns out)" and "\<not> failed t" and "rewrite r \<noteq> None"
  shows "runDirective f t r =
     (Normal, t,
      if hasBlankLine (normalize_actual out)
      then emit (emit (WriteString (emit (emit r ''----'') ''----'') (normalize_actual out)) ''----'')
             ''----''
      else emit (emit r ''----'') (normalize_actual out))"
  using assms by (simp add: runDirective_def Let_def)

lemma scanLines_replicate:
  "c \<noteq> NL \<Longrightarrow> scanLines line (replicate k c @ rest) = scanLines (line @ replicate k c) rest"
proof (induction k arbitrary: line)
  case 0
  then show ?case by simp
next
  case (Suc k)
  have "scanLines line (replicate (Suc k) c @ rest) = scanLines (line @ [c]) (replicate k c @ rest)"
    using Suc.prems by simp
  also have "\<dots> = scanLines ((line @ [c]) @ replicate k c) rest"
    using Suc.IH [OF Suc.prems] by simp
  also have "(line @ [c]) @ replicate k c = line @ replicate (Suc k) c"
    by (simp add: replicate_append_same)
  finally show ?case .
qed

lemma textLines_replicate:
  "c \<noteq> NL \<Longrightarrow> textLines line (replicate k c @ rest) = textLines (line @ replicate k c) rest"
proof (induction k arbitrary: line)
  case 0
  then show ?case by simp
next
  case (Suc k)
  have "textLines line (replicate (Suc k) c @ rest) = textLines (line @ [c]) (replicate k c @ rest)"
    using Suc.prems by simp
  also have "\<dots> = textLines ((line @ [c]) @ replicate k c) rest"
    using Suc.IH [OF Suc.prems] by simp
  also have "(line @ [c]) @ replicate k c = line @ replicate (Suc k) c"
    by (simp add: replicate_append_same)
  finally show ?case .
qed

lemma x_not_NL: "CHR ''x'' \<noteq> NL"
  by (simp add: NL_def)

lemma length_longLine: "length longLine = 65536"
  unfolding longLine_def by (rule length_replicate)

lemma scanLines_longOutput: "scanLines [] longOutput = []"
proof -
  have "scanLines [] (longLine @ [NL, NL]) = scanLines ([] @ longLine) [NL, NL]"
    unfolding longLine_def by (rule scanLines_replicate [OF x_not_NL])
  then have "scanLines [] longOutput = scanLines longLine [NL, NL]"
    by (simp add: longOutput_def)
  also have "\<dots> = []"
    by (simp add: length_longLine MaxScanTokenSize_def)
  finally show ?thesis .
qed

lemma textLines_longOutput: "textLines [] longOutput = [longLine, []]"
proof -
  have "textLines [] (longLine @ [NL, NL]) = textLines ([] @ longLine) [NL, NL]"
    unfolding longLine_def by (rule textLines_replicate [OF x_not_NL])
  then show ?thesis by (simp add: longOutput_def)
qed

lemma leadingSpace_Nil: "leadingSpace [] = 0"
  by (simp add: leadingSpace_def spaceRunes_def HasPrefix_def)

lemma trailingSpace_Nil: "trailingSpace [] = 0"
  by (simp add: trailingSpace_def spaceRunes_def HasSuffix_def)

lemma TrimSpace_Nil: "TrimSpace [] = []"
  unfolding TrimSpace_def
  by (subst TrimLeftSpace.simps, subst TrimRightSpace.simps)
     (simp add: leadingSpace_Nil trailingSpace_Nil)

text \<open>Whether a string is trimmed to nothing: only the white space at its front
  matters, and a carriage return at its end changes nothing. So, for a text whose lines
  are all shorter than the token limit, \<open>hasBlankLine\<close> holds exactly when one of its
  lines is empty after trimming.\<close>

lemma spaceRunes_shape:
  "w \<in> set spaceRunes \<Longrightarrow> w \<noteq> [] \<and> length w = runeLen (hd w)"
  by (auto simp: spaceRunes_def runeLen_def)

lemma spaceRunes_nonempty: "w \<in> set spaceRunes \<Longrightarrow> 0 < length w"
  by (auto simp: spaceRunes_def)

lemma spaceRunes_last_CR: "w \<in> set spaceRunes \<Longrightarrow> last w = CR \<Longrightarrow> w = [CR]"
  by (auto simp: spaceRunes_def CR_def)

lemma CR_spaceRune: "[CR] \<in> set spaceRunes"
  by (simp add: spaceRunes_def CR_def)

lemma prefix_free:
  assumes "w \<in> set spaceRunes" and "w' \<in> set spaceRunes" and "HasPrefix (w @ r) w'"
  shows "w' = w"
proof -
  from spaceRunes_shape [OF assms(1)] obtain c cs where w: "w = c # cs" "length w = runeLen c"
    by (cases w) auto
  from spaceRunes_shape [OF assms(2)] obtain c' cs' where w': "w' = c' # cs'" "length w' = runeLen c'"
    by (cases w') auto
  have pre: "take (length w') (w @ r) = w'" using assms(3) by (simp add: HasPrefix_def)
  then have "c' = c" using w w' by simp
  then have len: "length w' = length w" using w w' by simp
  show ?thesis using pre len by simp
qed

lemma leadingSpace_rune:
  assumes "w \<in> set spaceRunes"
  shows "leadingSpace (w @ r) = length w"
proof -
  have "HasPrefix (w @ r) w" by (simp add: HasPrefix_def)
  then obtain w' where f: "find (HasPrefix (w @ r)) spaceRunes = Some w'"
    using assms by (cases "find (HasPrefix (w @ r)) spaceRunes") (auto simp: find_None_iff)
  then have "w' \<in> set spaceRunes" "HasPrefix (w @ r) w'"
    by (auto simp: find_Some_iff)
  then have "w' = w" using prefix_free [OF assms] by blast
  then show ?thesis using f by (simp add: leadingSpace_def)
qed

lemma leadingSpace_pos:
  assumes "leadingSpace s \<noteq> 0"
  shows "\<exists>w r. w \<in> set spaceRunes \<and> s = w @ r \<and> leadingSpace s = length w"
proof -
  from assms obtain w where f: "find (HasPrefix s) spaceRunes = Some w"
    by (cases "find (HasPrefix s) spaceRunes") (auto simp: leadingSpace_def)
  then have w: "w \<in> set spaceRunes" "HasPrefix s w" by (auto simp: find_Some_iff)
  then have "s = w @ drop (length w) s"
    by (metis HasPrefix_def append_take_drop_id)
  then show ?thesis using w f by (auto simp: leadingSpace_def)
qed

lemma trailingSpace_pos:
  assumes "trailingSpace s \<noteq> 0"
  shows "\<exists>w v. w \<in> set spaceRunes \<and> s = v @ w \<and> trailingSpace s = length w"
proof -
  from assms obtain w where f: "find (HasSuffix s) spaceRunes = Some w"
    by (cases "find (HasSuffix s) spaceRunes") (auto simp: trailingSpace_def)
  then have w: "w \<in> set spaceRunes" "HasSuffix s w" by (auto simp: find_Some_iff)
  then have "s = take (length s - length w) s @ w"
    by (metis HasSuffix_def append_take_drop_id)
  then show ?thesis using w f by (auto simp: trailingSpace_def)
qed

lemma TrimLeftSpace_rune:
  assumes "w \<in> set spaceRunes"
  shows "TrimLeftSpace (w @ r) = TrimLeftSpace r"
  using spaceRunes_nonempty [OF assms] leadingSpace_rune [OF assms, of r]
  by (subst TrimLeftSpace.simps) simp

lemma TrimLeftSpace_none: "leadingSpace s = 0 \<Longrightarrow> TrimLeftSpace s = s"
  by (subst TrimLeftSpace.simps) simp

lemma TrimRightSpace_none: "trailingSpace s = 0 \<Longrightarrow> TrimRightSpace s = s"
  by (subst TrimRightSpace.simps) simp

lemma leadingSpace_TrimLeftSpace: "leadingSpace (TrimLeftSpace s) = 0"
proof (induction s rule: TrimLeftSpace.induct)
  case (1 s)
  show ?case
  proof (cases "leadingSpace s = 0")
    case True
    then show ?thesis by (simp add: TrimLeftSpace_none)
  next
    case False
    then show ?thesis using 1 by (subst TrimLeftSpace.simps) simp
  qed
qed

lemma TrimRightSpace_Nil_leading:
  "TrimRightSpace u = [] \<Longrightarrow> u \<noteq> [] \<Longrightarrow> leadingSpace u \<noteq> 0"
proof (induction u rule: TrimRightSpace.induct)
  case (1 u)
  show ?case
  proof (cases "trailingSpace u = 0")
    case True
    then show ?thesis using "1.prems" by (simp add: TrimRightSpace_none)
  next
    case False
    from trailingSpace_pos [OF False] obtain w v where
      w: "w \<in> set spaceRunes" "u = v @ w" "trailingSpace u = length w" by blast
    have v: "take (length u - trailingSpace u) u = v" using w by simp
    have rec: "TrimRightSpace v = []"
      using "1.prems"(1) False v by (subst (asm) TrimRightSpace.simps) simp
    show ?thesis
    proof (cases "v = []")
      case True
      then show ?thesis using w leadingSpace_rune [OF w(1), of "[]"] spaceRunes_nonempty [OF w(1)]
        by simp
    next
      case False
      have "leadingSpace v \<noteq> 0" using "1.IH" [OF \<open>trailingSpace u \<noteq> 0\<close>] v rec False by simp
      from leadingSpace_pos [OF this] obtain w1 r1 where
        w1: "w1 \<in> set spaceRunes" "v = w1 @ r1" by blast
      have "leadingSpace u = length w1"
        using leadingSpace_rune [OF w1(1), of "r1 @ w"] w w1 by simp
      then show ?thesis using spaceRunes_nonempty [OF w1(1)] by simp
    qed
  qed
qed

lemma TrimSpace_Nil_iff: "TrimSpace s = [] \<longleftrightarrow> TrimLeftSpace s = []"
proof
  assume "TrimLeftSpace s = []"
  then show "TrimSpace s = []" by (simp add: TrimSpace_def TrimRightSpace_none trailingSpace_Nil)
next
  assume a: "TrimSpace s = []"
  show "TrimLeftSpace s = []"
  proof (rule ccontr)
    assume "TrimLeftSpace s \<noteq> []"
    then have "leadingSpace (TrimLeftSpace s) \<noteq> 0"
      using a TrimRightSpace_Nil_leading [of "TrimLeftSpace s"] by (simp add: TrimSpace_def)
    then show False by (simp add: leadingSpace_TrimLeftSpace)
  qed
qed

lemma leadingSpace_snoc_CR:
  assumes "leadingSpace xs = 0" and "xs \<noteq> []"
  shows "leadingSpace (xs @ [CR]) = 0"
proof (rule ccontr)
  assume "leadingSpace (xs @ [CR]) \<noteq> 0"
  from leadingSpace_pos [OF this] obtain w r where
    w: "w \<in> set spaceRunes" "xs @ [CR] = w @ r" by blast
  show False
  proof (cases "length w \<le> length xs")
    case True
    have "take (length w) (xs @ [CR]) = take (length w) (w @ r)" using w(2) by simp
    then have "take (length w) xs = w" using True by simp
    then have "xs = w @ drop (length w) xs" by (metis append_take_drop_id)
    then have "leadingSpace xs = length w" using leadingSpace_rune [OF w(1)] by metis
    then show False using assms(1) spaceRunes_nonempty [OF w(1)] by simp
  next
    case False
    have "length (xs @ [CR]) = length (w @ r)" using w(2) by simp
    then have "length xs + 1 = length w + length r" by simp
    then have "length r = 0" using False by linarith
    then have "w = xs @ [CR]" using w(2) by simp
    then have "w = [CR]" using spaceRunes_last_CR [OF w(1)] by simp
    then show False using \<open>w = xs @ [CR]\<close> assms(2) by simp
  qed
qed


lemma TrimLeftSpace_snoc_CR: "TrimLeftSpace (xs @ [CR]) = [] \<longleftrightarrow> TrimLeftSpace xs = []"
proof (induction xs rule: TrimLeftSpace.induct)
  case (1 xs)
  show ?case
  proof (cases "leadingSpace xs = 0")
    case True
    show ?thesis
    proof (cases "xs = []")
      case True
      have "TrimLeftSpace ([CR] @ []) = TrimLeftSpace []" by (rule TrimLeftSpace_rune [OF CR_spaceRune])
      then show ?thesis using True by (simp add: TrimLeftSpace_none leadingSpace_Nil)
    next
      case False
      have "TrimLeftSpace (xs @ [CR]) = xs @ [CR]"
        using leadingSpace_snoc_CR [OF True False] by (rule TrimLeftSpace_none)
      then show ?thesis using True False by (simp add: TrimLeftSpace_none)
    qed
  next
    case False
    from leadingSpace_pos [OF False] obtain w r where
      w: "w \<in> set spaceRunes" "xs = w @ r" "leadingSpace xs = length w" by blast
    have d: "drop (leadingSpace xs) xs = r" using w by simp
    have "TrimLeftSpace (xs @ [CR]) = TrimLeftSpace (r @ [CR])"
      using TrimLeftSpace_rune [OF w(1), of "r @ [CR]"] w(2) by simp
    moreover have "TrimLeftSpace xs = TrimLeftSpace r"
      using TrimLeftSpace_rune [OF w(1), of r] w(2) by simp
    ultimately show ?thesis using "1.IH" [OF False] d by simp
  qed
qed

lemma TrimSpace_dropCR: "TrimSpace (dropCR l) = [] \<longleftrightarrow> TrimSpace l = []"
proof (cases "l \<noteq> [] \<and> last l = CR")
  case True
  then have "l = butlast l @ [CR]" by (metis append_butlast_last_id)
  then have "TrimLeftSpace l = [] \<longleftrightarrow> TrimLeftSpace (butlast l) = []"
    using TrimLeftSpace_snoc_CR [of "butlast l"] by simp
  then show ?thesis using True by (simp add: dropCR_def TrimSpace_Nil_iff)
next
  case False
  then show ?thesis by (auto simp: dropCR_def)
qed

lemma scanLines_short:
  "\<forall>l\<in>set (textLines line s). length l < MaxScanTokenSize \<Longrightarrow>
     scanLines line s = map dropCR (textLines line s)"
  by (induction s arbitrary: line) auto

lemma hasBlankLine_short_lines:
  assumes "\<forall>l\<in>set (textLines [] s). length l < MaxScanTokenSize"
  shows "hasBlankLine s \<longleftrightarrow> list_ex (\<lambda>l. TrimSpace l = []) (textLines [] s)"
  using scanLines_short [OF assms]
  by (simp add: hasBlankLine_def list_ex_iff TrimSpace_dropCR)

lemma normalize_longOutput: "normalize_actual longOutput = longOutput"
  by (simp add: normalize_actual_def HasSuffix_NL longOutput_def)

lemma normalize_shortOutput: "normalize_actual shortOutput = shortOutput"
  by (simp add: normalize_actual_def HasSuffix_NL shortOutput_def)

lemma hasBlankLine_shortOutput: "hasBlankLine shortOutput"
  by (simp add: hasBlankLine_def shortOutput_def MaxScanTokenSize_def dropCR_def CR_def NL_def
      TrimSpace_Nil)

text \<open>C1 at a handler result whose first line is 65536 bytes long and whose second line
  is empty. The normalized text contains a line that is empty after trimming, but the
  scanner stops at the first line, \<open>hasBlankLine\<close> is false, and the section is emitted
  in the simple form. For the short text with an empty line the section is emitted in
  the four-delimiter form.\<close>

theorem long_line_hides_blank_line:
  "list_ex (\<lambda>line. TrimSpace line = []) (textLines [] (normalize_actual longOutput)) \<and>
   \<not> hasBlankLine (normalize_actual longOutput) \<and>
   runDirective longHandler newT (reader0 [] (Some [])\<lparr>data := directive ''f:1'' ''cmd'' []\<rparr>)
     = (Normal, newT,
        emit (emit (reader0 [] (Some [])\<lparr>data := directive ''f:1'' ''cmd'' []\<rparr>) ''----'')
          longOutput) \<and>
   runDirective shortHandler newT (reader0 [] (Some [])\<lparr>data := directive ''f:1'' ''cmd'' []\<rparr>)
     = (Normal, newT,
        emit (emit (WriteString
            (emit (emit (reader0 [] (Some [])\<lparr>data := directive ''f:1'' ''cmd'' []\<rparr>) ''----'')
               ''----'')
            shortOutput) ''----'') ''----'')"
proof -
  have blank: "list_ex (\<lambda>line. TrimSpace line = []) (textLines [] (normalize_actual longOutput))"
    by (simp add: normalize_longOutput textLines_longOutput TrimSpace_Nil)
  have none: "\<not> hasBlankLine (normalize_actual longOutput)"
    by (simp add: normalize_longOutput hasBlankLine_def scanLines_longOutput)
  have long: "runDirective longHandler newT
       (reader0 [] (Some [])\<lparr>data := directive ''f:1'' ''cmd'' []\<rparr>)
     = (Normal, newT,
        emit (emit (reader0 [] (Some [])\<lparr>data := directive ''f:1'' ''cmd'' []\<rparr>) ''----'')
          longOutput)"
    using none
    by (simp add: runDirective_rewrite [where out = longOutput] longHandler_def reader0_def
        normalize_longOutput)
  have short: "runDirective shortHandler newT
       (reader0 [] (Some [])\<lparr>data := directive ''f:1'' ''cmd'' []\<rparr>)
     = (Normal, newT,
        emit (emit (WriteString
            (emit (emit (reader0 [] (Some [])\<lparr>data := directive ''f:1'' ''cmd'' []\<rparr>) ''----'')
               ''----'')
            shortOutput) ''----'') ''----'')"
    using hasBlankLine_shortOutput
    by (simp add: runDirective_rewrite [where out = shortOutput] shortHandler_def reader0_def
        normalize_shortOutput)
  show ?thesis using blank none long short by blast
qed


end
